theory Spec2Isabelle
  imports Complex_Main
begin

section \<open>The scroll-and-scrape loop of \<open>IdenChallengeScraper\<close> (src/p1.py)\<close>

text \<open>
  The browser is the environment of the program: what it shows and whether a call to it
  raises is read from an \<open>environment\<close> record, and the scraper object (\<open>self\<close> and the local
  variables of \<open>extract_product_data\<close>) is threaded through the functions as a \<open>scraper\<close>
  record. Durable storage is the list of the files written, in the order of the writes.
  The interrupt handler, the session file and the log output are outside the model.
\<close>

subsection \<open>Records of the table\<close>

text \<open>
  A product is the dict built at lines 510-520: nine keys, each holding the text of a
  cell or \<open>None\<close>. The keys \<open>id\<close> and \<open>size\<close> are primed, the plain names being constants
  of HOL.
\<close>

record product =
  id' :: "string option"
  description :: "string option"
  stock :: "string option"
  color :: "string option"
  price :: "string option"
  sku :: "string option"
  manufacturer :: "string option"
  item :: "string option"
  size' :: "string option"

text \<open>Python's truth value of a field: \<open>None\<close> and the empty string are false.\<close>

fun truthy :: "string option \<Rightarrow> bool" where
  "truthy None = False"
| "truthy (Some text) = (text \<noteq> [])"

text \<open>\<open>any(product.values())\<close>, line 599.\<close>

definition any_values :: "product \<Rightarrow> bool" where
  "any_values p =
     (truthy (id' p) \<or> truthy (description p) \<or> truthy (stock p) \<or> truthy (color p) \<or>
      truthy (price p) \<or> truthy (sku p) \<or> truthy (manufacturer p) \<or> truthy (item p) \<or>
      truthy (size' p))"

subsection \<open>The row extractor: \<open>extract_current_page_data\<close>, lines 483-532\<close>

text \<open>
  A cell is the result of \<open>cell.inner_text().strip()\<close>: the stripped text, or \<open>None\<close> when
  the read raises. A row has its visibility and its \<open>td\<close> cells; a row whose handle raises
  is skipped by the \<open>except: continue\<close> of line 525 as an invisible row is by line 496, and
  is a row with \<open>visible = False\<close> here. A page is the list of the rows the selector of
  line 492 matches, or \<open>None\<close> when the table is not found (line 488 raises or returns
  nothing).
\<close>

type_synonym cell = "string option"

record row =
  visible :: bool
  cells :: "cell list"

type_synonym page = "row list option"

text \<open>Lines 502-508: at most nine cells are read, an empty text becomes \<open>None\<close>.\<close>

definition cell_data_of :: "cell list \<Rightarrow> string option list" where
  "cell_data_of cs =
     map (\<lambda>c. case c of None \<Rightarrow> None | Some text \<Rightarrow> if text \<noteq> [] then Some text else None)
       (take 9 cs)"

text \<open>Lines 510-520; called with at least eight entries only.\<close>

definition product_of :: "string option list \<Rightarrow> product" where
  "product_of cell_data =
     \<lparr> id' = cell_data ! 0,
       description = cell_data ! 1,
       stock = cell_data ! 2,
       color = cell_data ! 3,
       price = cell_data ! 4,
       sku = cell_data ! 5,
       manufacturer = cell_data ! 6,
       item = cell_data ! 7,
       size' = (if length cell_data > 8 then cell_data ! 8 else None) \<rparr>"

text \<open>The loop over the rows, lines 494-526.\<close>

fun extract_rows :: "row list \<Rightarrow> product list" where
  "extract_rows [] = []"
| "extract_rows (r # rows) =
     (if \<not> visible r then extract_rows rows
      else if length (cells r) \<ge> 8 then
        (let product = product_of (cell_data_of (cells r)) in
         if truthy (id' product) \<or> truthy (sku product)
         then product # extract_rows rows
         else extract_rows rows)
      else extract_rows rows)"

definition extract_current_page_data :: "page \<Rightarrow> product list" where
  "extract_current_page_data pg = (case pg of None \<Rightarrow> [] | Some rows \<Rightarrow> extract_rows rows)"

subsection \<open>The dedup filter, lines 594-601\<close>

text \<open>
  The \<open>for\<close> loop over \<open>new_batch\<close> with its two accumulators: the list
  \<open>new_unique_products\<close> and the set \<open>self._existing_ids_cache\<close>. The set holds the values
  of the \<open>id\<close> key as they are.
\<close>

fun filter_new ::
  "product list \<Rightarrow> product list \<times> string option set \<Rightarrow> product list \<times> string option set"
where
  "filter_new [] (new_unique_products, cache) = (new_unique_products, cache)"
| "filter_new (product # batch) (new_unique_products, cache) =
     (let product_id = id' product in
      if truthy product_id \<and> product_id \<notin> cache \<and> any_values product
      then filter_new batch (new_unique_products @ [product], insert product_id cache)
      else filter_new batch (new_unique_products, cache))"

subsection \<open>Durable storage\<close>

text \<open>
  The two shapes of checkpoint the program writes share the record \<open>checkpoint\<close>: the key
  \<open>products_count\<close> of the progress files is the key \<open>total_products\<close> of the final file.
  The fallback files of lines 92 and 118 have shapes of their own.
\<close>

datatype status = in_progress | completed

record checkpoint =
  timestamp :: real
  products_count :: nat
  status :: status
  products :: "product list"

datatype artifact =
    Snapshot checkpoint
  | Emergency "product list" nat
  | Final_backup "product list"

definition temp_file :: string where
  "temp_file = ''temp_products.json''"

definition output_file :: string where
  "output_file = ''product_data.json''"

text \<open>Python's \<open>str\<close> of a natural number and of an integer, for the f-strings.\<close>

definition digit :: "nat \<Rightarrow> char" where
  "digit d = ''0123456789'' ! d"

function decimal :: "nat \<Rightarrow> string" where
  "decimal n = (if n < 10 then [digit n] else decimal (n div 10) @ [digit (n mod 10)])"
  by pat_completeness auto
termination
  by (relation "measure (\<lambda>n. n)") auto

definition str_int :: "int \<Rightarrow> string" where
  "str_int i = (if i < 0 then CHR ''-'' # decimal (nat (- i)) else decimal (nat i))"

text \<open>\<open>int(time.time())\<close>: truncation towards zero.\<close>

definition trunc :: "real \<Rightarrow> int" where
  "trunc t = (if t \<ge> 0 then \<lfloor>t\<rfloor> else \<lceil>t\<rceil>)"

definition backup_name :: "nat \<Rightarrow> string" where
  "backup_name n = ''progress_backup_'' @ decimal n @ ''.json''"

definition emergency_name :: "real \<Rightarrow> string" where
  "emergency_name t = ''emergency_save_'' @ str_int (trunc t) @ ''.json''"

definition backup_final :: "real \<Rightarrow> string" where
  "backup_final t = ''final_backup_'' @ str_int (trunc t) @ ''.json''"

subsection \<open>The environment and the scraper object\<close>

text \<open>The candidate selectors of line 451, in their order.\<close>

datatype selector =
    Div_overflow | Table_container | Div_max_height | Overflow_auto | Overflow_y_auto
  | Tbody | Table

definition container_selectors :: "selector list" where
  "container_selectors =
     [Div_overflow, Table_container, Div_max_height, Overflow_auto, Overflow_y_auto, Tbody, Table]"

text \<open>
  The places of the extraction loop where a call to the browser can raise outside a
  \<open>try\<close> of its own: the scroll burst of lines 581-588, a verification pass of lines
  645-648 and the recovery scrolls of lines 675-680.
\<close>

datatype site = Burst | Verification nat | Recovery

text \<open>
  \<^item> \<open>temp_file_products\<close>: the \<open>products\<close> entry of \<open>temp_products.json\<close> at startup, \<open>None\<close>
    when the file is missing or cannot be read (lines 125-138);
  \<^item> \<open>response\<close>: the answer typed at line 132;
  \<^item> \<open>query_selector_all\<close>: for a selector, the pair (scrollHeight, clientHeight) of each
    element it matches, \<open>None\<close> for an element whose \<open>evaluate\<close> raises, and \<open>None\<close>
    for the whole list when the query raises;
  \<^item> \<open>pages\<close>: the table as the \<open>k\<close>-th call of \<open>extract_current_page_data\<close> finds it;
  \<^item> \<open>fault\<close>: whether the browser raises at a site during the attempt of a given number;
  \<^item> \<open>writable\<close>: whether \<open>open(name, 'w')\<close> and the dump succeed;
  \<^item> \<open>clock\<close>: the value of the \<open>k\<close>-th call of \<open>time.time()\<close>;
  \<^item> the last six: what the collaborators of \<open>run\<close> return, and whether one of the
    browser calls of \<open>run\<close> before the extraction raises.
\<close>

record environment =
  temp_file_products :: "product list option"
  response :: string
  query_selector_all :: "selector \<Rightarrow> (int \<times> int) option list option"
  pages :: "nat \<Rightarrow> page"
  fault :: "site \<Rightarrow> nat \<Rightarrow> bool"
  writable :: "string \<Rightarrow> bool"
  clock :: "nat \<Rightarrow> real"
  session_loaded :: bool
  check_authentication :: bool
  authenticate :: bool
  launch_challenge :: bool
  navigate_to_product_table :: bool
  startup_raises :: bool

record scraper =
  all_products :: "product list"
  existing_ids_cache :: "string option set"
  consecutive_no_new_data :: nat
  total_attempts :: nat
  storage :: "(string \<times> artifact) list"
  clock_reads :: nat
  page_reads :: nat

text \<open>The object after \<open>__init__\<close>, lines 17-24.\<close>

definition init :: scraper where
  "init = \<lparr> all_products = [], existing_ids_cache = {}, consecutive_no_new_data = 0,
            total_attempts = 0, storage = [], clock_reads = 0, page_reads = 0 \<rparr>"

definition max_no_data_attempts :: nat where
  "max_no_data_attempts = 5"

definition max_attempts :: nat where
  "max_attempts = 100"

definition time_time :: "environment \<Rightarrow> scraper \<Rightarrow> real \<times> scraper" where
  "time_time e s = (clock e (clock_reads s), s\<lparr>clock_reads := clock_reads s + 1\<rparr>)"

definition write_file :: "string \<Rightarrow> artifact \<Rightarrow> scraper \<Rightarrow> scraper" where
  "write_file name a s = s\<lparr>storage := storage s @ [(name, a)]\<rparr>"

definition read_page :: "environment \<Rightarrow> scraper \<Rightarrow> product list \<times> scraper" where
  "read_page e s =
     (extract_current_page_data (pages e (page_reads s)), s\<lparr>page_reads := page_reads s + 1\<rparr>)"

subsection \<open>The checkpoint writer: \<open>save_continuous\<close> and \<open>save_final_data\<close>\<close>

text \<open>The inner \<open>try\<close> of lines 88-95.\<close>

definition emergency_save :: "environment \<Rightarrow> product list \<Rightarrow> scraper \<Rightarrow> scraper" where
  "emergency_save e prods s =
     (let (t, s) = time_time e s in
      if writable e (emergency_name t)
      then write_file (emergency_name t) (Emergency prods (length prods)) s
      else s)"

text \<open>Lines 44-95. The checks of lines 70-81 only print.\<close>

definition save_continuous :: "environment \<Rightarrow> product list \<Rightarrow> scraper \<Rightarrow> scraper" where
  "save_continuous e prods s =
     (let (t, s) = time_time e s;
          temp_data = \<lparr> timestamp = t, products_count = length prods, status = in_progress,
                        products = prods \<rparr>
      in if \<not> writable e temp_file then emergency_save e prods s
         else
           let s = write_file temp_file (Snapshot temp_data) s in
           if \<not> writable e (backup_name (length prods)) then emergency_save e prods s
           else write_file (backup_name (length prods)) (Snapshot temp_data) s)"

text \<open>Lines 97-121.\<close>

definition save_final_data :: "environment \<Rightarrow> scraper \<Rightarrow> scraper" where
  "save_final_data e s =
     (let (t, s) = time_time e s;
          final_data = \<lparr> timestamp = t, products_count = length (all_products s),
                         status = completed, products = all_products s \<rparr>
      in if writable e output_file then write_file output_file (Snapshot final_data) s
         else
           let (t2, s) = time_time e s in
           if writable e (backup_final t2)
           then write_file (backup_final t2) (Final_backup (all_products s)) s
           else s)"

text \<open>
  Lines 123-140. \<open>response.lower() == 'y'\<close> holds for the two answers \<open>y\<close> and \<open>Y\<close>.
\<close>

definition load_previous_progress :: "environment \<Rightarrow> scraper \<Rightarrow> bool \<times> scraper" where
  "load_previous_progress e s =
     (case temp_file_products e of
        None \<Rightarrow> (False, s)
      | Some prods \<Rightarrow>
          if prods \<noteq> [] \<and> (response e = ''y'' \<or> response e = ''Y'')
          then (True, s\<lparr>all_products := prods\<rparr>)
          else (False, s))"

subsection \<open>The scroll driver: \<open>find_scrollable_table_container\<close>, lines 449-481\<close>

text \<open>
  The elements of one selector, lines 464-476: the index of the first one that can
  scroll. An \<open>evaluate\<close> that raises leaves the selector (line 478).
\<close>

fun probe :: "(int \<times> int) option list \<Rightarrow> nat \<Rightarrow> nat option" where
  "probe [] i = None"
| "probe (None # elements) i = None"
| "probe (Some (scrollHeight, clientHeight) # elements) i =
     (if scrollHeight > clientHeight then Some i else probe elements (i + 1))"

fun find_container :: "environment \<Rightarrow> selector list \<Rightarrow> (selector \<times> nat) option" where
  "find_container e [] = None"
| "find_container e (sel # sels) =
     (case query_selector_all e sel of
        None \<Rightarrow> find_container e sels
      | Some elements \<Rightarrow>
          (case probe elements 0 of
             Some i \<Rightarrow> Some (sel, i)
           | None \<Rightarrow> find_container e sels))"

definition find_scrollable_table_container :: "environment \<Rightarrow> (selector \<times> nat) option" where
  "find_scrollable_table_container e = find_container e container_selectors"

subsection \<open>The extraction loop: \<open>extract_product_data\<close>, lines 534-714\<close>

text \<open>
  Lines 594-606: the new unique products of a batch are found, the cache is updated and
  the products are added to \<open>self.all_products\<close>; \<open>new_count\<close> is returned with the state.
\<close>

definition add_new_products :: "product list \<Rightarrow> scraper \<Rightarrow> nat \<times> scraper" where
  "add_new_products new_batch s =
     (let (new_unique_products, cache) = filter_new new_batch ([], existing_ids_cache s)
      in (length new_unique_products,
          s\<lparr>existing_ids_cache := cache,
            all_products := all_products s @ new_unique_products\<rparr>))"

text \<open>The inner loop of a verification pass, lines 652-657.\<close>

fun append_final :: "product list \<Rightarrow> scraper \<Rightarrow> scraper" where
  "append_final [] s = s"
| "append_final (product # final_batch) s =
     (let product_id = id' product in
      if truthy product_id \<and> product_id \<notin> existing_ids_cache s
      then append_final final_batch
             (s\<lparr>all_products := all_products s @ [product],
                existing_ids_cache := insert product_id (existing_ids_cache s)\<rparr>)
      else append_final final_batch s)"

text \<open>
  The verification passes, lines 644-662, over the values of \<open>range(2)\<close>. \<open>Inl\<close> is the
  state at which the browser raised.
\<close>

fun final_verification :: "environment \<Rightarrow> nat list \<Rightarrow> scraper \<Rightarrow> scraper + scraper" where
  "final_verification e [] s = Inr s"
| "final_verification e (final_attempt # rest) s =
     (if fault e (Verification final_attempt) (total_attempts s) then Inl s
      else
        let (final_batch, s) = read_page e s;
            s = append_final final_batch s;
            s = save_continuous e (all_products s) s
        in final_verification e rest s)"

text \<open>
  One pass through the body of the \<open>while\<close> loop, lines 576-694: the loop goes on, is
  left by a \<open>break\<close>, or is left by an exception of the browser.
\<close>

datatype step = Continue scraper | Break scraper | Raise scraper

definition attempt :: "environment \<Rightarrow> scraper \<Rightarrow> step" where
  "attempt e s0 =
     (let s = s0\<lparr>total_attempts := total_attempts s0 + 1\<rparr> in
      if fault e Burst (total_attempts s) then Raise s
      else
        let (new_batch, s) = read_page e s;
            (new_count, s) = add_new_products new_batch s;
            current_count = length (all_products s);
            s = (if total_attempts s mod 5 = 0 \<or> new_count = 0
                 then save_continuous e (all_products s) s else s);
            s = (if new_count = 0
                 then s\<lparr>consecutive_no_new_data := consecutive_no_new_data s + 1\<rparr>
                 else s\<lparr>consecutive_no_new_data := 0\<rparr>)
        in if current_count \<ge> 3300 then Break s
           else if current_count \<ge> 3300 then
             (case final_verification e [0..<2] s of
                Inl s' \<Rightarrow> Raise s'
              | Inr s' \<Rightarrow> Break s')
           else if consecutive_no_new_data s = 3 then
             (if fault e Recovery (total_attempts s) then Raise s else Continue s)
           else if consecutive_no_new_data s = 4 then Continue s
           else Continue s)"

lemma emergency_save_total_attempts [simp]:
  "total_attempts (emergency_save e prods s) = total_attempts s"
  by (simp add: emergency_save_def time_time_def write_file_def Let_def)

lemma save_continuous_total_attempts [simp]:
  "total_attempts (save_continuous e prods s) = total_attempts s"
  by (simp add: save_continuous_def time_time_def write_file_def Let_def)

lemma attempt_Continue_total_attempts:
  "attempt e s = Continue s' \<Longrightarrow> total_attempts s' = total_attempts s + 1"
  by (auto simp: attempt_def add_new_products_def Let_def read_page_def
      split: if_splits prod.splits sum.splits)

text \<open>
  The \<open>while\<close> loop of line 575. \<open>Inr\<close> is the state after the loop, \<open>Inl\<close> the state at
  which an exception left it. Every pass adds one to \<open>total_attempts\<close>, which the
  condition bounds: that is the termination argument.
\<close>

function extraction_loop :: "environment \<Rightarrow> scraper \<Rightarrow> scraper + scraper" where
  "extraction_loop e s =
     (if consecutive_no_new_data s < max_no_data_attempts \<and> total_attempts s < max_attempts
      then
        (case attempt e s of
           Continue s' \<Rightarrow> extraction_loop e s'
         | Break s' \<Rightarrow> Inr s'
         | Raise s' \<Rightarrow> Inl s')
      else Inr s)"
  by pat_completeness auto
termination
  by (relation "measure (\<lambda>(e, s). max_attempts - total_attempts s)")
    (auto dest: attempt_Continue_total_attempts)

text \<open>
  Lines 534-714. The function returns \<open>self.all_products\<close>; the \<open>except\<close> clause of lines
  709-714 is the \<open>Inl\<close> case.
\<close>

definition extract_product_data :: "environment \<Rightarrow> scraper \<Rightarrow> product list \<times> scraper" where
  "extract_product_data e s0 =
     (let (resumed, s) = load_previous_progress e s0;
          s = (if \<not> resumed then s\<lparr>all_products := []\<rparr> else s);
          s = s\<lparr>consecutive_no_new_data := 0, total_attempts := 0\<rparr>;
          starting_count = length (all_products s)
      in case find_scrollable_table_container e of
           None \<Rightarrow> (all_products s, s)
         | Some table_container \<Rightarrow>
            (let s = (if starting_count = 0
                      then
                        let (current_products, s) = read_page e s;
                            s = s\<lparr>all_products := all_products s @ current_products\<rparr>
                        in save_continuous e (all_products s) s
                      else s);
                 s = s\<lparr>existing_ids_cache :=
                         set (map id' (filter (\<lambda>p. truthy (id' p)) (all_products s)))\<rparr>
             in (case extraction_loop e s of
                   Inr s \<Rightarrow>
                     (let s = save_continuous e (all_products s) s in (all_products s, s))
                 | Inl s \<Rightarrow>
                     (let s = (if all_products s \<noteq> []
                               then save_continuous e (all_products s) s else s)
                      in (all_products s, s)))))"

text \<open>
  Lines 716-773: the result of \<open>run\<close> and the scraper it leaves. An exception of the
  browser before the extraction is caught at line 764.
\<close>

definition run :: "environment \<Rightarrow> bool \<times> scraper" where
  "run e =
     (if startup_raises e then (False, init)
      else if (\<not> session_loaded e \<or> \<not> check_authentication e) \<and> \<not> authenticate e
      then (False, init)
      else if \<not> launch_challenge e then (False, init)
      else if \<not> navigate_to_product_table e then (False, init)
      else
        let (prods, s) = extract_product_data e init in
        if prods = [] then (False, s)
        else (True, save_final_data e s))"

section \<open>Notions of the statements\<close>

text \<open>
  The contract of \<open>filterNew\<close> in the words of the specification, section 4.2: the records
  whose \<open>id\<close> is non-empty, not in the seen set nor the \<open>id\<close> of an earlier record of the
  batch, and which carry at least one non-empty field, in the order of the batch.
\<close>

definition filterNew_spec :: "string option set \<Rightarrow> product list \<Rightarrow> product list" where
  "filterNew_spec seen batch =
     map (\<lambda>i. batch ! i)
       (filter
          (\<lambda>i. truthy (id' (batch ! i)) \<and>
               id' (batch ! i) \<notin> seen \<union> id' ` set (take i batch) \<and>
               any_values (batch ! i))
          [0..<length batch])"

text \<open>
  The scraper a pass of the loop ends with, however the pass ends.
\<close>

definition step_state :: "step \<Rightarrow> scraper" where
  "step_state st = (case st of Continue s \<Rightarrow> s | Break s \<Rightarrow> s | Raise s \<Rightarrow> s)"

text \<open>
  The scraper the loop ends with, whether it ends by its condition or a \<open>break\<close> or by an
  exception.
\<close>

definition state_of :: "scraper + scraper \<Rightarrow> scraper" where
  "state_of r = (case r of Inl s \<Rightarrow> s | Inr s \<Rightarrow> s)"

text \<open>
  What the dedup filter makes of the batch of the next poll: the new unique products and
  the cache after them.
\<close>

abbreviation (input) new_of :: "environment \<Rightarrow> scraper \<Rightarrow> product list \<times> string option set" where
  "new_of e s \<equiv>
     filter_new (extract_current_page_data (pages e (page_reads s))) ([], existing_ids_cache s)"

text \<open>
  The result set of \<open>s'\<close> is that of \<open>s\<close> followed by records whose ids are non-empty,
  differ from one another and are not in the cache of \<open>s\<close>; the cache has grown by these
  ids.
\<close>

definition grows_from :: "scraper \<Rightarrow> scraper \<Rightarrow> bool" where
  "grows_from s s' =
     (\<exists>added. all_products s' = all_products s @ added \<and> distinct (map id' added) \<and>
        (\<forall>p \<in> set added. truthy (id' p) \<and> id' p \<notin> existing_ids_cache s) \<and>
        existing_ids_cache s' = existing_ids_cache s \<union> id' ` set added)"

text \<open>
  Storage holds a checkpoint with status \<open>completed\<close>.
\<close>

definition completed_written :: "scraper \<Rightarrow> bool" where
  "completed_written s =
     list_ex (\<lambda>(name, a). case a of Snapshot ck \<Rightarrow> status ck = completed | _ \<Rightarrow> False)
       (storage s)"

text \<open>
  The run gets to line 753: no browser call raised before, authentication (by the
  session or by signing in), the launch and the navigation succeeded.
\<close>

definition reaches_extraction :: "environment \<Rightarrow> bool" where
  "reaches_extraction e =
     (\<not> startup_raises e \<and>
      (session_loaded e \<and> check_authentication e \<or> authenticate e) \<and>
      launch_challenge e \<and> navigate_to_product_table e)"

text \<open>
  The phases of \<open>extract_product_data\<close>: the state at line 547, the state at the head of
  the loop (line 575), and the lines after the loop with the \<open>except\<close> clause.
\<close>

definition start_state :: "environment \<Rightarrow> scraper \<Rightarrow> scraper" where
  "start_state e s0 =
     (if fst (load_previous_progress e s0)
      then (snd (load_previous_progress e s0))\<lparr>consecutive_no_new_data := 0, total_attempts := 0\<rparr>
      else (snd (load_previous_progress e s0))\<lparr>all_products := [],
             consecutive_no_new_data := 0, total_attempts := 0\<rparr>)"

definition loop_entry :: "environment \<Rightarrow> scraper \<Rightarrow> scraper" where
  "loop_entry e s =
     (let s' = (if all_products s = []
                then save_continuous e (all_products s @ fst (read_page e s))
                       ((snd (read_page e s))\<lparr>all_products := all_products s @ fst (read_page e s)\<rparr>)
                else s)
      in s'\<lparr>existing_ids_cache :=
              set (map id' (filter (\<lambda>p. truthy (id' p)) (all_products s')))\<rparr>)"

definition finish :: "environment \<Rightarrow> scraper + scraper \<Rightarrow> product list \<times> scraper" where
  "finish e r =
     (case r of
        Inr s \<Rightarrow> (all_products s, save_continuous e (all_products s) s)
      | Inl s \<Rightarrow>
          (all_products s, if all_products s \<noteq> [] then save_continuous e (all_products s) s else s))"

section \<open>Example inputs\<close>

text \<open>
  The concrete inputs of the witnesses and counterexamples. A row built by \<open>row_of\<close> has
  eight cells, the first the id and the sixth the sku S, so that the product extracted
  from it is \<open>record_of\<close> of the id. The environment \<open>quiet\<close> starts fresh, has a scrollable
  container, never finds the table, never raises, and every file can be written; the
  others differ from it in what the table shows or in the checkpoint they resume from.
\<close>

definition record_of :: "string option \<Rightarrow> product" where
  "record_of i = \<lparr> id' = i, description = None, stock = None, color = None, price = None,
                   sku = Some ''S'', manufacturer = None, item = None, size' = None \<rparr>"

definition example_batch :: "product list" where
  "example_batch = [record_of (Some ''A1''), record_of (Some ''A3''), record_of (Some ''A3''),
                    record_of (Some [])]"

definition row_of :: "string \<Rightarrow> row" where
  "row_of i = \<lparr> visible = True,
               cells = [Some i, None, None, None, None, Some ''S'', None, None] \<rparr>"

definition no_id_row :: row where
  "no_id_row = \<lparr> visible = True,
                  cells = [Some [], None, None, None, None, Some ''S'', None, None] \<rparr>"

definition quiet :: environment where
  "quiet = \<lparr> temp_file_products = None, response = ''n'',
     query_selector_all = (\<lambda>sel. Some [Some (900, 400)]),
     pages = (\<lambda>k. None), fault = (\<lambda>site k. False), writable = (\<lambda>name. True),
     clock = (\<lambda>k. 0), session_loaded = True, check_authentication = True,
     authenticate = True, launch_challenge = True, navigate_to_product_table = True,
     startup_raises = False \<rparr>"

definition stalled :: environment where
  "stalled = quiet\<lparr>pages := (\<lambda>k. Some [row_of ''A1''])\<rparr>"

definition seen_A1 :: scraper where
  "seen_A1 = init\<lparr>all_products := [record_of (Some ''A1'')],
                   existing_ids_cache := {Some ''A1''}\<rparr>"

definition empty_table :: environment where
  "empty_table = quiet\<lparr>pages := (\<lambda>k. Some [])\<rparr>"

definition burst_raises :: environment where
  "burst_raises = empty_table\<lparr>fault := (\<lambda>site k. site = Burst \<and> k = 5)\<rparr>"

definition no_container :: environment where
  "no_container = quiet\<lparr>query_selector_all := (\<lambda>sel. Some [Some (400, 400)])\<rparr>"

definition resumed_no_container :: environment where
  "resumed_no_container =
     no_container\<lparr>temp_file_products := Some [record_of (Some ''A1'')], response := ''y''\<rparr>"

definition growing :: environment where
  "growing = quiet\<lparr>pages := (\<lambda>k. if k = 0 then Some [no_id_row, row_of ''A1'', row_of ''A1'']
                                  else Some [no_id_row, row_of ''A1'', row_of ''A2''])\<rparr>"

definition twins :: environment where
  "twins = quiet\<lparr>pages := (\<lambda>k. Some [row_of ''A1'', row_of ''A1''])\<rparr>"

definition numbered :: "nat \<Rightarrow> product" where
  "numbered n = record_of (Some (CHR ''p'' # decimal n))"

definition numbered_products :: "nat \<Rightarrow> product list" where
  "numbered_products n = map numbered [0..<n]"

definition at_target :: environment where
  "at_target =
     quiet\<lparr>temp_file_products := Some (numbered_products 3300), response := ''y'',
           pages := (\<lambda>k. if k = 0 then Some [row_of ''X''] else Some [row_of ''Y''])\<rparr>"

section \<open>Lemmas\<close>

declare extraction_loop.simps [simp del]

declare decimal.simps [simp del]

subsection \<open>The dedup filter\<close>

lemma truthy_any_values: "truthy (id' p) \<Longrightarrow> any_values p"
  by (simp add: any_values_def)

lemma upt_Suc_shift: "[0..<Suc n] = 0 # map Suc [0..<n]"
  by (simp add: upt_conv_Cons map_Suc_upt del: upt_Suc)

lemma filterNew_spec_Nil [simp]: "filterNew_spec seen [] = []"
  by (simp add: filterNew_spec_def)

lemma filterNew_spec_Cons:
  "filterNew_spec seen (p # batch) =
     (if truthy (id' p) \<and> id' p \<notin> seen \<and> any_values p then [p] else []) @
     filterNew_spec (insert (id' p) seen) batch"
  by (auto simp: filterNew_spec_def upt_Suc_shift filter_map comp_def simp del: upt_Suc
      intro!: arg_cong [where f = "map ((!) batch)"] filter_cong)

lemma filterNew_spec_insert_rejected:
  assumes "\<not> (truthy (id' p) \<and> id' p \<notin> seen)"
  shows "filterNew_spec (insert (id' p) seen) batch = filterNew_spec seen batch"
proof -
  have "filter (\<lambda>i. truthy (id' (batch ! i)) \<and>
               id' (batch ! i) \<notin> insert (id' p) seen \<union> id' ` set (take i batch) \<and>
               any_values (batch ! i)) [0..<length batch] =
        filter (\<lambda>i. truthy (id' (batch ! i)) \<and>
               id' (batch ! i) \<notin> seen \<union> id' ` set (take i batch) \<and>
               any_values (batch ! i)) [0..<length batch]"
    using assms by (intro filter_cong) auto
  then show ?thesis
    by (simp add: filterNew_spec_def)
qed

lemma filter_new_spec_acc:
  "filter_new batch (acc, cache) =
     (acc @ filterNew_spec cache batch, cache \<union> id' ` set (filterNew_spec cache batch))"
proof (induction batch arbitrary: acc cache)
  case Nil
  show ?case by simp
next
  case (Cons p batch)
  show ?case
  proof (cases "truthy (id' p) \<and> id' p \<notin> cache")
    case True
    then show ?thesis
      using Cons.IH [of "acc @ [p]" "insert (id' p) cache"]
      by (simp add: filterNew_spec_Cons truthy_any_values Let_def)
  next
    case False
    then show ?thesis
      using Cons.IH [of acc cache]
      by (auto simp: filterNew_spec_Cons filterNew_spec_insert_rejected Let_def)
  qed
qed

lemma filter_new_cache_mono: "cache \<subseteq> snd (filter_new batch (acc, cache))"
proof (induction batch arbitrary: acc cache)
  case Nil
  show ?case by simp
next
  case (Cons p batch)
  show ?case
    using Cons.IH [of cache acc] Cons.IH [of "insert (id' p) cache" "acc @ [p]"]
    by (auto simp: Let_def)
qed

lemma filter_new_cache_covers:
  "p \<in> set batch \<Longrightarrow> truthy (id' p) \<Longrightarrow> id' p \<in> snd (filter_new batch (acc, cache))"
proof (induction batch arbitrary: acc cache)
  case Nil
  then show ?case by simp
next
  case (Cons q batch)
  show ?case
  proof (cases "p = q")
    case True
    have "id' q \<in> cache \<or> id' q \<in> insert (id' q) cache" by simp
    then show ?thesis
      using True Cons.prems(2) filter_new_cache_mono [of cache batch acc]
        filter_new_cache_mono [of "insert (id' q) cache" batch "acc @ [q]"]
      by (auto simp: Let_def truthy_any_values)
  next
    case False
    then have "p \<in> set batch" using Cons.prems(1) by simp
    then show ?thesis
      using Cons.IH Cons.prems(2) by (simp add: Let_def)
  qed
qed

lemma filter_new_all_seen:
  "(\<And>p. p \<in> set batch \<Longrightarrow> truthy (id' p) \<Longrightarrow> id' p \<in> cache) \<Longrightarrow>
   filter_new batch (acc, cache) = (acc, cache)"
  by (induction batch arbitrary: acc) (auto simp: Let_def)

lemma filter_new_twice:
  "filter_new batch ([], snd (filter_new batch (acc, cache))) =
     ([], snd (filter_new batch (acc, cache)))"
  by (rule filter_new_all_seen) (rule filter_new_cache_covers)

subsection \<open>A pass of the loop\<close>

lemma step_state_simps [simp]:
  "step_state (Continue s) = s" "step_state (Break s) = s" "step_state (Raise s) = s"
  by (simp_all add: step_state_def)

lemma state_of_simps [simp]: "state_of (Inl s) = s" "state_of (Inr s) = s"
  by (simp_all add: state_of_def)

lemma emergency_save_frame [simp]:
  "all_products (emergency_save e prods s) = all_products s"
  "existing_ids_cache (emergency_save e prods s) = existing_ids_cache s"
  "consecutive_no_new_data (emergency_save e prods s) = consecutive_no_new_data s"
  "page_reads (emergency_save e prods s) = page_reads s"
  by (simp_all add: emergency_save_def time_time_def write_file_def Let_def)

lemma save_continuous_frame [simp]:
  "all_products (save_continuous e prods s) = all_products s"
  "existing_ids_cache (save_continuous e prods s) = existing_ids_cache s"
  "consecutive_no_new_data (save_continuous e prods s) = consecutive_no_new_data s"
  "page_reads (save_continuous e prods s) = page_reads s"
  by (simp_all add: save_continuous_def time_time_def write_file_def Let_def)

lemma save_final_data_frame [simp]:
  "all_products (save_final_data e s) = all_products s"
  by (simp add: save_final_data_def time_time_def write_file_def Let_def)

lemma attempt_Raise_Burst:
  "fault e Burst (Suc (total_attempts s)) \<Longrightarrow>
   attempt e s = Raise (s\<lparr>total_attempts := Suc (total_attempts s)\<rparr>)"
  by (simp add: attempt_def)

lemma attempt_fields:
  assumes "\<not> fault e Burst (Suc (total_attempts s))"
  shows "all_products (step_state (attempt e s)) = all_products s @ fst (new_of e s)"
    and "existing_ids_cache (step_state (attempt e s)) = snd (new_of e s)"
    and "total_attempts (step_state (attempt e s)) = Suc (total_attempts s)"
    and "page_reads (step_state (attempt e s)) = Suc (page_reads s)"
    and "consecutive_no_new_data (step_state (attempt e s)) =
           (if fst (new_of e s) = [] then Suc (consecutive_no_new_data s) else 0)"
proof -
  obtain new cache where found: "new_of e s = (new, cache)"
    by (cases "new_of e s")
  note unfold = attempt_def add_new_products_def read_page_def Let_def found
  show "all_products (step_state (attempt e s)) = all_products s @ fst (new_of e s)"
    using assms by (simp add: unfold)
  show "existing_ids_cache (step_state (attempt e s)) = snd (new_of e s)"
    using assms by (simp add: unfold)
  show "total_attempts (step_state (attempt e s)) = Suc (total_attempts s)"
    using assms by (simp add: unfold)
  show "page_reads (step_state (attempt e s)) = Suc (page_reads s)"
    using assms by (simp add: unfold)
  show "consecutive_no_new_data (step_state (attempt e s)) =
           (if fst (new_of e s) = [] then Suc (consecutive_no_new_data s) else 0)"
    using assms by (simp add: unfold)
qed

lemma attempt_total_attempts:
  "total_attempts (step_state (attempt e s)) = Suc (total_attempts s)"
  by (cases "fault e Burst (Suc (total_attempts s))")
    (simp_all add: attempt_Raise_Burst attempt_fields)

lemma attempt_Break_iff:
  assumes "\<not> fault e Burst (Suc (total_attempts s))"
  shows "(\<exists>s'. attempt e s = Break s') =
           (3300 \<le> length (all_products s) + length (fst (new_of e s)))"
proof -
  obtain new cache where found: "new_of e s = (new, cache)"
    by (cases "new_of e s")
  show ?thesis
    using assms
    by (simp add: attempt_def add_new_products_def read_page_def Let_def found)
qed

lemma filterNew_spec_props:
  "distinct (map id' (filterNew_spec seen batch)) \<and>
   (\<forall>p \<in> set (filterNew_spec seen batch). truthy (id' p) \<and> id' p \<notin> seen \<and> p \<in> set batch)"
proof (induction batch arbitrary: seen)
  case Nil
  show ?case by simp
next
  case (Cons q batch)
  show ?case
    using Cons.IH [of "insert (id' q) seen"]
    by (auto simp: filterNew_spec_Cons)
qed

lemma grows_from_refl: "grows_from s s"
  by (simp add: grows_from_def)

lemma grows_from_same:
  "all_products s' = all_products s \<Longrightarrow> existing_ids_cache s' = existing_ids_cache s \<Longrightarrow>
   grows_from s s'"
  by (simp add: grows_from_def)

lemma grows_from_trans:
  assumes "grows_from s s'" and "grows_from s' s''"
  shows "grows_from s s''"
proof -
  from assms(1) obtain a where a: "all_products s' = all_products s @ a"
    "distinct (map id' a)" "\<forall>p \<in> set a. truthy (id' p) \<and> id' p \<notin> existing_ids_cache s"
    "existing_ids_cache s' = existing_ids_cache s \<union> id' ` set a"
    unfolding grows_from_def by blast
  from assms(2) obtain b where b: "all_products s'' = all_products s' @ b"
    "distinct (map id' b)" "\<forall>p \<in> set b. truthy (id' p) \<and> id' p \<notin> existing_ids_cache s'"
    "existing_ids_cache s'' = existing_ids_cache s' \<union> id' ` set b"
    unfolding grows_from_def by blast
  have "all_products s'' = all_products s @ (a @ b)"
    using a(1) b(1) by simp
  moreover have "distinct (map id' (a @ b))"
    using a(2) b(2) b(3) a(4) by (fastforce simp: image_iff)
  moreover have "\<forall>p \<in> set (a @ b). truthy (id' p) \<and> id' p \<notin> existing_ids_cache s"
    using a(3) b(3) a(4) by auto
  moreover have "existing_ids_cache s'' = existing_ids_cache s \<union> id' ` set (a @ b)"
    using a(4) b(4) by auto
  ultimately show ?thesis
    unfolding grows_from_def by blast
qed

lemma attempt_grows: "grows_from s (step_state (attempt e s))"
proof (cases "fault e Burst (Suc (total_attempts s))")
  case True
  then show ?thesis
    by (simp add: attempt_Raise_Burst grows_from_same)
next
  case False
  have spec: "new_of e s =
      (filterNew_spec (existing_ids_cache s) (extract_current_page_data (pages e (page_reads s))),
       existing_ids_cache s \<union> id' ` set (filterNew_spec (existing_ids_cache s)
         (extract_current_page_data (pages e (page_reads s)))))"
    using filter_new_spec_acc [of _ "[]"] by simp
  show ?thesis
    unfolding grows_from_def
    using filterNew_spec_props [of "existing_ids_cache s"
        "extract_current_page_data (pages e (page_reads s))"]
    by (intro exI [of _ "fst (new_of e s)"]) (simp add: attempt_fields [OF False] spec)
qed

subsection \<open>The loop\<close>

lemma extraction_loop_stop:
  assumes "\<not> (consecutive_no_new_data s < max_no_data_attempts \<and>
              total_attempts s < max_attempts)"
  shows "extraction_loop e s = Inr s"
  unfolding extraction_loop.simps [of e s] using assms by (rule if_not_P)

lemma extraction_loop_pass:
  assumes "consecutive_no_new_data s < max_no_data_attempts \<and> total_attempts s < max_attempts"
  shows "extraction_loop e s =
           (case attempt e s of
              Continue s' \<Rightarrow> extraction_loop e s'
            | Break s' \<Rightarrow> Inr s'
            | Raise s' \<Rightarrow> Inl s')"
  by (subst extraction_loop.simps) (simp add: assms)

lemma extraction_loop_grows: "grows_from s (state_of (extraction_loop e s))"
proof (induction e s rule: extraction_loop.induct)
  case (1 e s)
  show ?case
  proof (cases "consecutive_no_new_data s < max_no_data_attempts \<and>
                total_attempts s < max_attempts")
    case False
    then show ?thesis
      by (simp add: extraction_loop_stop grows_from_refl)
  next
    case True
    have one: "grows_from s (step_state (attempt e s))"
      by (rule attempt_grows)
    show ?thesis
    proof (cases "attempt e s")
      case (Continue s')
      then have "grows_from s' (state_of (extraction_loop e s'))"
        using "1.IH" True by simp
      moreover have "grows_from s s'"
        using one Continue by simp
      ultimately show ?thesis
        using Continue
        by (auto simp: extraction_loop_pass [OF True] intro: grows_from_trans)
    next
      case (Break s')
      then show ?thesis
        using one by (simp add: extraction_loop_pass [OF True])
    next
      case (Raise s')
      then show ?thesis
        using one by (simp add: extraction_loop_pass [OF True])
    qed
  qed
qed

lemma filter_new_nothing_keeps_cache:
  "fst (filter_new batch ([], cache)) = [] \<Longrightarrow> snd (filter_new batch ([], cache)) = cache"
  using filter_new_spec_acc [of batch "[]" cache] by simp

lemma extraction_loop_attempts_bound:
  "total_attempts (state_of (extraction_loop e s)) \<le> max (total_attempts s) max_attempts"
proof (induction e s rule: extraction_loop.induct)
  case (1 e s)
  show ?case
  proof (cases "consecutive_no_new_data s < max_no_data_attempts \<and>
                total_attempts s < max_attempts")
    case False
    then show ?thesis
      by (simp add: extraction_loop_stop)
  next
    case True
    have next_attempt: "total_attempts (step_state (attempt e s)) = Suc (total_attempts s)"
      by (rule attempt_total_attempts)
    show ?thesis
    proof (cases "attempt e s")
      case (Continue s')
      then have "total_attempts (state_of (extraction_loop e s')) \<le>
          max (total_attempts s') max_attempts"
        using "1.IH" True by simp
      then show ?thesis
        using Continue next_attempt True by (simp add: extraction_loop_pass [OF True])
    next
      case (Break s')
      then show ?thesis
        using next_attempt True by (simp add: extraction_loop_pass [OF True])
    next
      case (Raise s')
      then show ?thesis
        using next_attempt True by (simp add: extraction_loop_pass [OF True])
    qed
  qed
qed

lemma extraction_loop_stalled:
  "(\<forall>k. fst (filter_new (extract_current_page_data (pages e k)) ([], existing_ids_cache s)) = [])
   \<Longrightarrow> total_attempts (state_of (extraction_loop e s)) \<le>
         total_attempts s + (max_no_data_attempts - consecutive_no_new_data s)"
proof (induction e s rule: extraction_loop.induct)
  case (1 e s)
  note never = "1.prems"
  show ?case
  proof (cases "consecutive_no_new_data s < max_no_data_attempts \<and>
                total_attempts s < max_attempts")
    case False
    then show ?thesis
      by (simp add: extraction_loop_stop)
  next
    case True
    have next_attempt: "total_attempts (step_state (attempt e s)) = Suc (total_attempts s)"
      by (rule attempt_total_attempts)
    show ?thesis
    proof (cases "attempt e s")
      case (Continue s')
      then have burst: "\<not> fault e Burst (Suc (total_attempts s))"
        by (auto simp: attempt_Raise_Burst)
      have none_new: "fst (new_of e s) = []"
        using never by simp
      have cache: "existing_ids_cache s' = existing_ids_cache s"
        using attempt_fields(2) [OF burst] Continue
          filter_new_nothing_keeps_cache [OF none_new]
        by simp
      have stall: "consecutive_no_new_data s' = Suc (consecutive_no_new_data s)"
        using attempt_fields(5) [OF burst] Continue none_new by simp
      have "total_attempts (state_of (extraction_loop e s')) \<le>
          total_attempts s' + (max_no_data_attempts - consecutive_no_new_data s')"
        using "1.IH" [OF True Continue] never cache by simp
      then show ?thesis
        using Continue next_attempt stall True
        by (simp add: extraction_loop_pass [OF True])
    next
      case (Break s')
      then show ?thesis
        using next_attempt True by (simp add: extraction_loop_pass [OF True]) arith
    next
      case (Raise s')
      then show ?thesis
        using next_attempt True by (simp add: extraction_loop_pass [OF True]) arith
    qed
  qed
qed

subsection \<open>File names and writes\<close>

lemma digit_inj: "a < 10 \<Longrightarrow> b < 10 \<Longrightarrow> digit a = digit b \<Longrightarrow> a = b"
proof -
  assume "a < 10" and "b < 10"
  then have "a \<in> {0, 1, 2, 3, 4, 5, 6, 7, 8, 9}" and "b \<in> {0, 1, 2, 3, 4, 5, 6, 7, 8, 9}"
    by auto
  moreover assume "digit a = digit b"
  ultimately show "a = b"
    by (auto simp: digit_def)
qed

lemma decimal_not_Nil: "decimal n \<noteq> []"
  by (subst decimal.simps) simp

lemma decimal_inj: "decimal m = decimal n \<Longrightarrow> m = n"
proof (induction m arbitrary: n rule: decimal.induct)
  case (1 m)
  show ?case
  proof (cases "m < 10")
    case True
    then have m: "decimal m = [digit m]"
      by (subst decimal.simps) simp
    have "n < 10"
    proof (rule ccontr)
      assume "\<not> n < 10"
      then have "decimal n = decimal (n div 10) @ [digit (n mod 10)]"
        by (subst decimal.simps) simp
      then show False
        using "1.prems" m decimal_not_Nil [of "n div 10"] by simp
    qed
    then have "decimal n = [digit n]"
      by (subst decimal.simps) simp
    then show ?thesis
      using "1.prems" m True \<open>n < 10\<close> by (simp add: digit_inj)
  next
    case False
    then have m: "decimal m = decimal (m div 10) @ [digit (m mod 10)]"
      by (subst decimal.simps) simp
    have big: "\<not> n < 10"
    proof
      assume "n < 10"
      then have "decimal n = [digit n]"
        by (subst decimal.simps) simp
      then show False
        using "1.prems" m decimal_not_Nil [of "m div 10"] by simp
    qed
    then have n: "decimal n = decimal (n div 10) @ [digit (n mod 10)]"
      by (subst decimal.simps) simp
    from "1.prems" m n have front: "decimal (m div 10) = decimal (n div 10)"
      and ones: "digit (m mod 10) = digit (n mod 10)"
      by simp_all
    have "m div 10 = n div 10"
      using "1.IH" [OF False front] .
    moreover have "m mod 10 = n mod 10"
      using ones by (intro digit_inj) simp_all
    ultimately show ?thesis
      by (metis div_mult_mod_eq)
  qed
qed

lemma backup_name_inj: "(backup_name m = backup_name n) = (m = n)"
  by (auto simp: backup_name_def dest: decimal_inj)

lemma save_continuous_storage:
  assumes "writable e temp_file" and "writable e (backup_name (length prods))"
  shows "storage (save_continuous e prods s) =
     storage s @
       [(temp_file, Snapshot \<lparr> timestamp = clock e (clock_reads s),
            products_count = length prods, status = in_progress, products = prods \<rparr>),
        (backup_name (length prods), Snapshot \<lparr> timestamp = clock e (clock_reads s),
            products_count = length prods, status = in_progress, products = prods \<rparr>)]"
  using assms by (simp add: save_continuous_def time_time_def write_file_def Let_def)

lemma save_continuous_storage_cong:
  "storage s' = storage s \<Longrightarrow> clock_reads s' = clock_reads s \<Longrightarrow>
   storage (save_continuous e prods s') = storage (save_continuous e prods s)"
  by (simp add: save_continuous_def emergency_save_def time_time_def write_file_def Let_def)

lemma save_continuous_writes:
  "writable e temp_file \<Longrightarrow> storage (save_continuous e prods s) \<noteq> storage s"
  by (simp add: save_continuous_def emergency_save_def time_time_def write_file_def Let_def)

subsection \<open>The status of the checkpoints written\<close>

lemma completed_written_emergency_save [simp]:
  "completed_written (emergency_save e prods s) = completed_written s"
  by (simp add: completed_written_def emergency_save_def time_time_def write_file_def Let_def)

lemma completed_written_save_continuous [simp]:
  "completed_written (save_continuous e prods s) = completed_written s"
  by (simp add: save_continuous_def Let_def time_time_def write_file_def split_def)
    (simp add: completed_written_def)

lemma completed_written_update [simp]:
  "completed_written (s\<lparr>all_products := a\<rparr>) = completed_written s"
  "completed_written (s\<lparr>existing_ids_cache := b\<rparr>) = completed_written s"
  "completed_written (s\<lparr>consecutive_no_new_data := c\<rparr>) = completed_written s"
  "completed_written (s\<lparr>total_attempts := d\<rparr>) = completed_written s"
  "completed_written (s\<lparr>page_reads := f\<rparr>) = completed_written s"
  "completed_written (s\<lparr>clock_reads := g\<rparr>) = completed_written s"
  by (simp_all add: completed_written_def)

lemma attempt_completed_written:
  "completed_written (step_state (attempt e s)) = completed_written s"
proof (cases "fault e Burst (Suc (total_attempts s))")
  case True
  then show ?thesis
    by (simp add: attempt_Raise_Burst)
next
  case False
  obtain new cache where found: "new_of e s = (new, cache)"
    by (cases "new_of e s")
  show ?thesis
    using False
    by (simp add: attempt_def add_new_products_def read_page_def Let_def found)
qed

lemma extraction_loop_completed_written:
  "completed_written (state_of (extraction_loop e s)) = completed_written s"
proof (induction e s rule: extraction_loop.induct)
  case (1 e s)
  show ?case
  proof (cases "consecutive_no_new_data s < max_no_data_attempts \<and>
                total_attempts s < max_attempts")
    case False
    then show ?thesis
      by (simp add: extraction_loop_stop)
  next
    case True
    have one: "completed_written (step_state (attempt e s)) = completed_written s"
      by (rule attempt_completed_written)
    show ?thesis
    proof (cases "attempt e s")
      case (Continue s')
      then show ?thesis
        using "1.IH" [OF True Continue] one by (simp add: extraction_loop_pass [OF True])
    next
      case (Break s')
      then show ?thesis
        using one by (simp add: extraction_loop_pass [OF True])
    next
      case (Raise s')
      then show ?thesis
        using one by (simp add: extraction_loop_pass [OF True])
    qed
  qed
qed

subsection \<open>The phases of the extraction, and the run\<close>

lemma extract_product_data_phases:
  "extract_product_data e s0 =
     (case find_scrollable_table_container e of
        None \<Rightarrow> (all_products (start_state e s0), start_state e s0)
      | Some table_container \<Rightarrow> finish e (extraction_loop e (loop_entry e (start_state e s0))))"
  by (simp add: extract_product_data_def start_state_def loop_entry_def finish_def
      read_page_def Let_def split_def split: option.splits sum.splits)

lemma load_previous_progress_frame [simp]:
  "storage (snd (load_previous_progress e s)) = storage s"
  "page_reads (snd (load_previous_progress e s)) = page_reads s"
  "clock_reads (snd (load_previous_progress e s)) = clock_reads s"
  by (simp_all add: load_previous_progress_def split: option.splits)

lemma load_previous_progress_all_products:
  "fst (load_previous_progress e s) \<Longrightarrow> all_products (snd (load_previous_progress e s)) \<noteq> []"
  by (auto simp: load_previous_progress_def split: option.splits if_splits)

lemma start_state_frame [simp]:
  "storage (start_state e s) = storage s"
  "page_reads (start_state e s) = page_reads s"
  "clock_reads (start_state e s) = clock_reads s"
  by (simp_all add: start_state_def)

lemma start_state_all_products:
  "(all_products (start_state e s) = []) = (\<not> fst (load_previous_progress e s))"
  using load_previous_progress_all_products [of e s] by (auto simp: start_state_def)

lemma completed_written_storage:
  "storage s' = storage s \<Longrightarrow> completed_written s' = completed_written s"
  by (simp add: completed_written_def)

lemma loop_entry_completed_written [simp]:
  "completed_written (loop_entry e s) = completed_written s"
  by (simp add: loop_entry_def read_page_def Let_def)

lemma finish_fields [simp]:
  "fst (finish e r) = all_products (state_of r)"
  "all_products (snd (finish e r)) = all_products (state_of r)"
  "completed_written (snd (finish e r)) = completed_written (state_of r)"
  by (simp_all add: finish_def split: sum.splits)

lemma extract_product_data_returns_all_products:
  "fst (extract_product_data e s) = all_products (snd (extract_product_data e s))"
  by (simp add: extract_product_data_phases split: option.splits)

lemma extract_product_data_completed_written:
  "completed_written (snd (extract_product_data e s)) = completed_written s"
  by (simp add: extract_product_data_phases extraction_loop_completed_written
      completed_written_storage [of "start_state e s" s] split: option.splits)

lemma run_reached:
  assumes "reaches_extraction e"
  shows "run e =
     (if fst (extract_product_data e init) = [] then (False, snd (extract_product_data e init))
      else (True, save_final_data e (snd (extract_product_data e init))))"
  using assms by (auto simp: run_def reaches_extraction_def split_def)

lemma run_not_reached:
  assumes "\<not> reaches_extraction e"
  shows "run e = (False, init)"
  using assms by (auto simp: run_def reaches_extraction_def)

lemma save_final_data_storage:
  assumes "writable e output_file"
  shows "storage (save_final_data e s) =
     storage s @ [(output_file, Snapshot \<lparr> timestamp = clock e (clock_reads s),
        products_count = length (all_products s), status = completed,
        products = all_products s \<rparr>)]"
  using assms by (simp add: save_final_data_def time_time_def write_file_def Let_def)

subsection \<open>The first extraction\<close>

lemma extract_rows_valid:
  "p \<in> set (extract_rows rows) \<Longrightarrow> truthy (id' p) \<or> truthy (sku p)"
  by (induction rows) (auto simp: Let_def split: if_splits)

lemma extract_current_page_data_valid:
  "p \<in> set (extract_current_page_data pg) \<Longrightarrow> truthy (id' p) \<or> truthy (sku p)"
  by (auto simp: extract_current_page_data_def dest: extract_rows_valid split: option.splits)

lemma loop_entry_fresh:
  assumes "all_products s = []"
  shows "all_products (loop_entry e s) = extract_current_page_data (pages e (page_reads s))"
    and "existing_ids_cache (loop_entry e s) =
           {i \<in> id' ` set (extract_current_page_data (pages e (page_reads s))). truthy i}"
  using assms by (auto simp: loop_entry_def read_page_def Let_def)

subsection \<open>Distinct ids, and the target\<close>

lemma extraction_loop_keeps_ids_distinct:
  assumes "distinct (filter truthy (map id' (all_products s)))"
    and "\<forall>p \<in> set (all_products s). truthy (id' p) \<longrightarrow> id' p \<in> existing_ids_cache s"
  shows "distinct (filter truthy (map id' (all_products (state_of (extraction_loop e s)))))"
proof -
  from extraction_loop_grows [of s e]
  obtain added where added:
    "all_products (state_of (extraction_loop e s)) = all_products s @ added"
    "distinct (map id' added)"
    "\<forall>p \<in> set added. truthy (id' p) \<and> id' p \<notin> existing_ids_cache s"
    unfolding grows_from_def by blast
  have "filter truthy (map id' added) = map id' added"
    using added(3) by (auto intro: filter_True)
  moreover have "set (filter truthy (map id' (all_products s))) \<inter> set (map id' added) = {}"
    using assms(2) added(3) by auto
  ultimately show ?thesis
    using assms(1) added(1,2) by simp
qed

lemma attempt_at_target:
  assumes "\<not> fault e Burst (Suc (total_attempts s))"
    and "3300 \<le> length (all_products s) + length (fst (new_of e s))"
  shows "\<exists>s'. attempt e s = Break s' \<and> page_reads s' = Suc (page_reads s) \<and>
           all_products s' = all_products s @ fst (new_of e s) \<and>
           existing_ids_cache s' = snd (new_of e s) \<and>
           total_attempts s' = Suc (total_attempts s)"
proof -
  from attempt_Break_iff [OF assms(1)] assms(2)
  obtain s' where "attempt e s = Break s'"
    by blast
  then show ?thesis
    using attempt_fields [OF assms(1)] by simp
qed

lemma length_numbered_products [simp]: "length (numbered_products n) = n"
  by (simp add: numbered_products_def)

lemma numbered_products_ids:
  "i \<in> id' ` set (numbered_products n) \<Longrightarrow> \<exists>k. i = Some (CHR ''p'' # decimal k)"
  by (auto simp: numbered_products_def numbered_def record_of_def)

section \<open>The claims\<close>

subsection \<open>Claim C1\<close>

text \<open>
  Claim C1 fails on the code: on a fresh start with a first page that shows two rows with
  the id A1, both records enter the result set, since line 561 extends it with the first
  extraction unfiltered. The loop itself keeps the non-empty ids distinct
  (lemma \<open>extraction_loop_keeps_ids_distinct\<close>); the first extraction is the path that
  misses the filter.
\<close>

theorem initial_extraction_keeps_duplicates:
  "map id' (fst (extract_product_data twins init)) = [Some ''A1'', Some ''A1'']"
  by code_simp

subsection \<open>Claim C2\<close>

text \<open>
  Claim C2. The extraction loop is a total function: every pass adds one to
  \<open>total_attempts\<close>, so from any state it makes at most \<open>max_attempts\<close> passes, whatever the
  pages show. A state whose stall counter has reached 5 or whose attempt count has reached
  100 is returned as it is, with no further pass. When no page ever holds a record the
  filter accepts, the loop ends after at most as many passes as the stall counter lacks to
  5.
\<close>

theorem extraction_loop_terminates:
  "total_attempts (state_of (extraction_loop e s)) \<le> max (total_attempts s) max_attempts \<and>
   (max_no_data_attempts \<le> consecutive_no_new_data s \<or> max_attempts \<le> total_attempts s
      \<longrightarrow> extraction_loop e s = Inr s) \<and>
   ((\<forall>k. fst (filter_new (extract_current_page_data (pages e k))
              ([], existing_ids_cache s)) = [])
      \<longrightarrow> total_attempts (state_of (extraction_loop e s)) \<le>
            total_attempts s + (max_no_data_attempts - consecutive_no_new_data s))"
proof (intro conjI impI)
  show "total_attempts (state_of (extraction_loop e s)) \<le> max (total_attempts s) max_attempts"
    by (rule extraction_loop_attempts_bound)
next
  assume "max_no_data_attempts \<le> consecutive_no_new_data s \<or>
          max_attempts \<le> total_attempts s"
  then have "\<not> (consecutive_no_new_data s < max_no_data_attempts \<and>
               total_attempts s < max_attempts)"
    by auto
  then show "extraction_loop e s = Inr s"
    by (rule extraction_loop_stop)
next
  assume "\<forall>k. fst (filter_new (extract_current_page_data (pages e k))
              ([], existing_ids_cache s)) = []"
  then show "total_attempts (state_of (extraction_loop e s)) \<le>
            total_attempts s + (max_no_data_attempts - consecutive_no_new_data s)"
    by (rule extraction_loop_stalled)
qed

text \<open>
  The theorem where the table shows the one row A1, already seen, at every poll: at most
  five passes; and at the attempt ceiling: no pass.
\<close>

theorem extraction_loop_terminates_witness:
  "total_attempts (state_of (extraction_loop stalled seen_A1)) \<le> 5 \<and>
   extraction_loop stalled (seen_A1\<lparr>total_attempts := 100\<rparr>) =
     Inr (seen_A1\<lparr>total_attempts := 100\<rparr>)"
proof -
  have never: "\<forall>k. fst (filter_new (extract_current_page_data (pages stalled k))
      ([], existing_ids_cache seen_A1)) = []"
    by (simp add: stalled_def quiet_def seen_A1_def init_def extract_current_page_data_def
        row_of_def cell_data_of_def product_of_def Let_def)
  have ceiling: "max_no_data_attempts \<le> consecutive_no_new_data (seen_A1\<lparr>total_attempts := 100\<rparr>)
      \<or> max_attempts \<le> total_attempts (seen_A1\<lparr>total_attempts := 100\<rparr>)"
    by (simp add: max_attempts_def)
  from extraction_loop_terminates [of stalled seen_A1] never
  have "total_attempts (state_of (extraction_loop stalled seen_A1)) \<le>
      total_attempts seen_A1 + (max_no_data_attempts - consecutive_no_new_data seen_A1)"
    by blast
  moreover from extraction_loop_terminates [of stalled "seen_A1\<lparr>total_attempts := 100\<rparr>"]
    ceiling
  have "extraction_loop stalled (seen_A1\<lparr>total_attempts := 100\<rparr>) =
      Inr (seen_A1\<lparr>total_attempts := 100\<rparr>)"
    by blast
  ultimately show ?thesis
    by (simp add: seen_A1_def init_def max_no_data_attempts_def)
qed

subsection \<open>Claim C3\<close>

text \<open>
  Claim C3 fails on the code: the \<open>break\<close> of line 637 leaves the loop as soon as the
  count reaches 3300, so the verification passes of lines 640-664 never run. Resumed from
  3300 records, with a table that shows the new row X at the first poll and the new row Y
  afterwards, the extraction makes one attempt and one read of the table and returns the
  3300 records and X; the row Y, which a verification pass would have read and which the
  filter would accept, is never collected.
\<close>

theorem no_verification_pass_at_target:
  "fst (extract_product_data at_target init) =
     numbered_products 3300 @ [record_of (Some ''X'')] \<and>
   total_attempts (snd (extract_product_data at_target init)) = 1 \<and>
   page_reads (snd (extract_product_data at_target init)) = 1 \<and>
   fst (filter_new (extract_current_page_data (pages at_target 1))
          ([], existing_ids_cache (snd (extract_product_data at_target init)))) =
     [record_of (Some ''Y'')]"
proof -
  let ?s = "start_state at_target init"
  let ?old = "numbered_products 3300"
  let ?ids = "set (map id' (filter (\<lambda>p. truthy (id' p)) ?old))"
  have init_fields: "page_reads init = 0" "total_attempts init = 0"
    "consecutive_no_new_data init = 0"
    by (simp_all add: init_def)
  have some: "?old \<noteq> []"
  proof
    assume "?old = []"
    then have "length ?old = 0"
      by (simp only: list.size)
    then show False
      by simp
  qed
  have loaded: "load_previous_progress at_target init = (True, init\<lparr>all_products := ?old\<rparr>)"
    using some by (simp add: load_previous_progress_def at_target_def quiet_def)
  have start: "?s = init\<lparr>all_products := ?old, consecutive_no_new_data := 0, total_attempts := 0\<rparr>"
    by (simp add: start_state_def loaded)
  have entry: "loop_entry at_target ?s =
      init\<lparr>all_products := ?old, consecutive_no_new_data := 0, total_attempts := 0,
           existing_ids_cache := ?ids\<rparr>"
    unfolding start using some by (simp add: loop_entry_def Let_def)
  let ?l = "loop_entry at_target ?s"
  have unseen: "Some ''X'' \<notin> ?ids" "Some ''Y'' \<notin> ?ids"
    using numbered_products_ids [of "Some ''X''" 3300] numbered_products_ids [of "Some ''Y''" 3300]
    by auto
  have reads: "page_reads ?l = 0"
    by (simp add: entry init_fields)
  have "extract_current_page_data (pages at_target 0) = [record_of (Some ''X'')]"
    by (simp add: at_target_def quiet_def extract_current_page_data_def
        row_of_def cell_data_of_def product_of_def record_of_def)
  then have page0:
    "extract_current_page_data (pages at_target (page_reads ?l)) = [record_of (Some ''X'')]"
    by (simp only: reads)
  have page1: "extract_current_page_data (pages at_target 1) = [record_of (Some ''Y'')]"
    by (simp add: at_target_def quiet_def extract_current_page_data_def
        row_of_def cell_data_of_def product_of_def record_of_def)
  have cache: "existing_ids_cache ?l = ?ids"
    by (simp add: entry)
  have new: "new_of at_target ?l = ([record_of (Some ''X'')], insert (Some ''X'') ?ids)"
    unfolding page0 cache using unseen(1) by (simp add: record_of_def any_values_def Let_def)
  have quiet_burst: "\<not> fault at_target Burst (Suc (total_attempts ?l))"
    by (simp add: at_target_def quiet_def)
  have count: "length (all_products ?l) = 3300"
    by (simp add: entry)
  have enough: "3300 \<le> length (all_products ?l) + length (fst (new_of at_target ?l))"
    unfolding new count by simp
  from attempt_at_target [OF quiet_burst enough]
  obtain s' where s': "attempt at_target ?l = Break s'" "page_reads s' = Suc (page_reads ?l)"
    "all_products s' = all_products ?l @ fst (new_of at_target ?l)"
    "existing_ids_cache s' = snd (new_of at_target ?l)"
    "total_attempts s' = Suc (total_attempts ?l)"
    by blast
  have attempts: "total_attempts ?l = 0" "consecutive_no_new_data ?l = 0"
    by (simp_all add: entry)
  have go: "consecutive_no_new_data ?l < max_no_data_attempts \<and> total_attempts ?l < max_attempts"
    unfolding attempts by (simp add: max_no_data_attempts_def max_attempts_def)
  have loop: "extraction_loop at_target ?l = Inr s'"
    by (simp only: extraction_loop_pass [OF go] s'(1) step.case)
  have found: "find_scrollable_table_container at_target = Some (Div_overflow, 0)"
    by (simp add: find_scrollable_table_container_def container_selectors_def at_target_def
        quiet_def)
  have result: "extract_product_data at_target init = finish at_target (Inr s')"
    by (simp only: extract_product_data_phases found loop option.case)
  have products: "all_products s' = ?old @ [record_of (Some ''X'')]"
    unfolding s'(3) new by (simp add: entry)
  have final_cache: "existing_ids_cache s' = insert (Some ''X'') ?ids"
    unfolding s'(4) new by simp
  have later: "fst (filter_new [record_of (Some ''Y'')] ([], insert (Some ''X'') ?ids)) =
      [record_of (Some ''Y'')]"
    using unseen(2) by (simp add: record_of_def any_values_def Let_def)
  have "fst (finish at_target (Inr s')) = ?old @ [record_of (Some ''X'')]"
    by (simp add: products)
  moreover have "total_attempts (snd (finish at_target (Inr s'))) = 1"
    by (simp add: finish_def s'(5) attempts)
  moreover have "page_reads (snd (finish at_target (Inr s'))) = 1"
    by (simp add: finish_def s'(2) reads)
  moreover have "existing_ids_cache (snd (finish at_target (Inr s'))) = insert (Some ''X'') ?ids"
    by (simp add: finish_def final_cache)
  ultimately show ?thesis
    unfolding result page1 using later by simp
qed

subsection \<open>Claim C4\<close>

text \<open>
  Claim C4, amended. When the run reaches the extraction and \<open>product_data.json\<close> can be
  written, a checkpoint with status \<open>completed\<close> is written exactly when the extraction
  returns a non-empty result set, whatever way the loop was left (loop condition, target
  reached, exception, or no container); it is then the last write and holds the result
  set. With an empty result set line 755 returns \<open>False\<close> before the final save.
\<close>

theorem final_checkpoint_when_nonempty:
  assumes "reaches_extraction e" and "writable e output_file"
    and "result = extract_product_data e init"
  shows "fst (run e) = (fst result \<noteq> []) \<and>
         completed_written (snd (run e)) = (fst result \<noteq> []) \<and>
         (fst result \<noteq> [] \<longrightarrow>
            last (storage (snd (run e))) =
              (output_file, Snapshot \<lparr> timestamp = clock e (clock_reads (snd result)),
                 products_count = length (fst result), status = completed,
                 products = fst result \<rparr>))"
proof -
  have before: "\<not> completed_written (snd result)"
    using assms(3) extract_product_data_completed_written [of e init]
    by (simp add: completed_written_def init_def)
  have returned: "fst result = all_products (snd result)"
    using assms(3) by (simp add: extract_product_data_returns_all_products)
  have after: "completed_written (save_final_data e (snd result))"
    by (simp add: completed_written_def save_final_data_storage [OF assms(2)])
  show ?thesis
    using before after returned assms(3)
    by (simp add: run_reached [OF assms(1)] save_final_data_storage [OF assms(2)])
qed

text \<open>
  The theorem in the run where the table shows the row A1 at every poll: the last write
  is the final checkpoint with the one record.
\<close>

theorem final_checkpoint_when_nonempty_witness:
  "fst (run stalled) \<and> completed_written (snd (run stalled)) \<and>
   last (storage (snd (run stalled))) =
     (output_file, Snapshot \<lparr> timestamp = 0, products_count = 1, status = completed,
                              products = [record_of (Some ''A1'')] \<rparr>)"
proof -
  have reached: "reaches_extraction stalled"
    by (simp add: reaches_extraction_def stalled_def quiet_def)
  have target: "writable stalled output_file"
    by (simp add: stalled_def quiet_def)
  have result: "fst (extract_product_data stalled init) = [record_of (Some ''A1'')]"
    by code_simp
  have time: "clock stalled k = 0" for k
    by (simp add: stalled_def quiet_def)
  from final_checkpoint_when_nonempty [OF reached target refl]
  show ?thesis
    by (simp add: result time)
qed

text \<open>
  Claim C4 as stated fails: with a table that never shows a row, the loop is left by the
  stall threshold with an empty result set, and the run ends with no \<open>completed\<close>
  checkpoint in storage.
\<close>

theorem no_final_checkpoint_when_empty:
  "consecutive_no_new_data (snd (run empty_table)) = 5 \<and>
   \<not> fst (run empty_table) \<and> \<not> completed_written (snd (run empty_table))"
  by code_simp

subsection \<open>Claim C5\<close>

text \<open>
  Claim C5, amended. When no scrollable container is found, \<open>run\<close> reports success exactly
  when it reached the extraction and resumed from a previous checkpoint, whose records
  are then the result. A run that does not succeed writes nothing; one that does writes
  the resumed records to \<open>product_data.json\<close> as the one checkpoint, with status
  \<open>completed\<close>, when that file can be written.
\<close>

theorem no_container_result:
  assumes "find_scrollable_table_container e = None"
    and "resumed = (reaches_extraction e \<and> fst (load_previous_progress e init))"
    and "prods = all_products (snd (load_previous_progress e init))"
  shows "fst (run e) = resumed \<and>
         all_products (snd (run e)) = (if resumed then prods else []) \<and>
         (\<not> resumed \<longrightarrow> storage (snd (run e)) = []) \<and>
         (resumed \<and> writable e output_file \<longrightarrow>
            storage (snd (run e)) =
              [(output_file,
                Snapshot \<lparr> timestamp = clock e 0, products_count = length prods,
                           status = completed, products = prods \<rparr>)])"
proof (cases "reaches_extraction e")
  case False
  then show ?thesis
    using assms(2) by (simp add: run_not_reached init_def)
next
  case True
  have returned: "extract_product_data e init = (all_products (start_state e init), start_state e init)"
    by (simp add: extract_product_data_phases assms(1))
  have fresh: "(all_products (start_state e init) = []) = (\<not> fst (load_previous_progress e init))"
    by (rule start_state_all_products)
  have kept: "fst (load_previous_progress e init) \<Longrightarrow>
      all_products (start_state e init) = all_products (snd (load_previous_progress e init))"
    by (simp add: start_state_def)
  have empty: "storage init = []" "clock_reads init = 0"
    by (simp_all add: init_def)
  show ?thesis
  proof (cases "fst (load_previous_progress e init)")
    case False
    then show ?thesis
      using True fresh assms(2) empty by (simp add: run_reached [OF True] returned)
  next
    case resumes: True
    then have some: "all_products (start_state e init) \<noteq> []"
      using fresh by simp
    have "storage (save_final_data e (start_state e init)) =
        [(output_file,
          Snapshot \<lparr> timestamp = clock e 0, products_count = length prods,
                     status = completed, products = prods \<rparr>)]"
      if "writable e output_file"
      using save_final_data_storage [OF that, of "start_state e init"] kept [OF resumes]
      by (simp add: empty assms(3))
    then show ?thesis
      using True resumes some kept [OF resumes] assms(2,3)
      by (simp add: run_reached [OF True] returned)
  qed
qed

text \<open>
  The theorem where no candidate element can scroll: a fresh start fails and writes
  nothing; a run resumed from a checkpoint of the record A1 writes that record as the
  final checkpoint.
\<close>

theorem no_container_result_witness:
  "find_scrollable_table_container no_container = None \<and> \<not> fst (run no_container) \<and>
   storage (snd (run no_container)) = [] \<and>
   storage (snd (run resumed_no_container)) =
     [(output_file,
       Snapshot \<lparr> timestamp = 0, products_count = 1, status = completed,
                  products = [record_of (Some ''A1'')] \<rparr>)]"
proof -
  have none: "find_scrollable_table_container no_container = None"
    "find_scrollable_table_container resumed_no_container = None"
    by code_simp+
  have fresh: "\<not> fst (load_previous_progress no_container init)"
    by (simp add: load_previous_progress_def no_container_def quiet_def)
  have resumed: "load_previous_progress resumed_no_container init =
      (True, init\<lparr>all_products := [record_of (Some ''A1'')]\<rparr>)"
    by (simp add: load_previous_progress_def resumed_no_container_def no_container_def quiet_def)
  have env: "reaches_extraction resumed_no_container" "writable resumed_no_container output_file"
    "clock resumed_no_container 0 = 0"
    by (simp_all add: reaches_extraction_def resumed_no_container_def no_container_def quiet_def)
  from no_container_result [OF none(1) refl refl] fresh
  have "\<not> fst (run no_container) \<and> storage (snd (run no_container)) = []"
    by simp
  moreover from no_container_result [OF none(2) refl refl] env
  have "storage (snd (run resumed_no_container)) =
     [(output_file,
       Snapshot \<lparr> timestamp = 0, products_count = 1, status = completed,
                  products = [record_of (Some ''A1'')] \<rparr>)]"
    by (simp add: resumed)
  ultimately show ?thesis
    using none(1) by simp
qed

text \<open>
  Claim C5 as stated fails: resumed from a checkpoint of one record, with no scrollable
  container, the run reports success.
\<close>

theorem no_container_resumed_succeeds:
  "find_scrollable_table_container resumed_no_container = None \<and>
   fst (run resumed_no_container)"
  by code_simp

subsection \<open>Claim C6\<close>

text \<open>
  Claim C6. For every batch and every seen set, the filter of lines 594-601 returns the
  records the specification describes and leaves the seen set grown by their ids. In the
  example of the specification (seen set A1, A2; a batch with the ids A1, A3, A3 and an
  empty one) it returns the second record alone, and nothing on a second call.
\<close>

theorem filter_new_returns_spec:
  "filter_new batch ([], seen) =
     (filterNew_spec seen batch, seen \<union> id' ` set (filterNew_spec seen batch)) \<and>
   (length b = 4 \<and> id' (b ! 0) = Some ''A1'' \<and> id' (b ! 1) = Some ''A3'' \<and>
    id' (b ! 2) = Some ''A3'' \<and> \<not> truthy (id' (b ! 3)) \<longrightarrow>
      filter_new b ([], {Some ''A1'', Some ''A2''}) =
        ([b ! 1], {Some ''A1'', Some ''A2'', Some ''A3''}) \<and>
      filter_new b ([], {Some ''A1'', Some ''A2'', Some ''A3''}) =
        ([], {Some ''A1'', Some ''A2'', Some ''A3''}))"
proof (intro conjI impI)
  show "filter_new batch ([], seen) =
     (filterNew_spec seen batch, seen \<union> id' ` set (filterNew_spec seen batch))"
    using filter_new_spec_acc [of batch "[]" seen] by simp
next
  assume ex: "length b = 4 \<and> id' (b ! 0) = Some ''A1'' \<and> id' (b ! 1) = Some ''A3'' \<and>
    id' (b ! 2) = Some ''A3'' \<and> \<not> truthy (id' (b ! 3))"
  then obtain b0 b1 b2 b3 where b: "b = [b0, b1, b2, b3]"
    by (auto simp: length_Suc_conv numeral_eq_Suc)
  show "filter_new b ([], {Some ''A1'', Some ''A2''}) =
        ([b ! 1], {Some ''A1'', Some ''A2'', Some ''A3''})"
    using ex by (auto simp: b Let_def truthy_any_values)
  show "filter_new b ([], {Some ''A1'', Some ''A2'', Some ''A3''}) =
        ([], {Some ''A1'', Some ''A2'', Some ''A3''})"
    using ex by (auto simp: b Let_def)
qed

text \<open>
  The theorem at the batch of the example, with the sku S in each record.
\<close>

theorem filter_new_returns_spec_witness:
  "filter_new example_batch ([], {Some ''A1'', Some ''A2''}) =
     ([record_of (Some ''A3'')], {Some ''A1'', Some ''A2'', Some ''A3''}) \<and>
   filter_new example_batch ([], {Some ''A1'', Some ''A2'', Some ''A3''}) =
     ([], {Some ''A1'', Some ''A2'', Some ''A3''}) \<and>
   filterNew_spec {Some ''A1'', Some ''A2''} example_batch = [record_of (Some ''A3'')]"
proof -
  have shape: "length example_batch = 4 \<and> id' (example_batch ! 0) = Some ''A1'' \<and>
      id' (example_batch ! 1) = Some ''A3'' \<and> id' (example_batch ! 2) = Some ''A3'' \<and>
      \<not> truthy (id' (example_batch ! 3))"
    by (simp add: example_batch_def record_of_def)
  have second: "example_batch ! 1 = record_of (Some ''A3'')"
    by (simp add: example_batch_def)
  from filter_new_returns_spec [of example_batch "{Some ''A1'', Some ''A2''}" example_batch]
    shape
  have "filter_new example_batch ([], {Some ''A1'', Some ''A2''}) =
      (filterNew_spec {Some ''A1'', Some ''A2''} example_batch,
       {Some ''A1'', Some ''A2''} \<union>
         id' ` set (filterNew_spec {Some ''A1'', Some ''A2''} example_batch)) \<and>
    filter_new example_batch ([], {Some ''A1'', Some ''A2''}) =
      ([example_batch ! 1], {Some ''A1'', Some ''A2'', Some ''A3''}) \<and>
    filter_new example_batch ([], {Some ''A1'', Some ''A2'', Some ''A3''}) =
      ([], {Some ''A1'', Some ''A2'', Some ''A3''})"
    by blast
  then have spec: "filter_new example_batch ([], {Some ''A1'', Some ''A2''}) =
      (filterNew_spec {Some ''A1'', Some ''A2''} example_batch,
       {Some ''A1'', Some ''A2''} \<union>
         id' ` set (filterNew_spec {Some ''A1'', Some ''A2''} example_batch))"
    and one: "filter_new example_batch ([], {Some ''A1'', Some ''A2''}) =
      ([example_batch ! 1], {Some ''A1'', Some ''A2'', Some ''A3''})"
    and none: "filter_new example_batch ([], {Some ''A1'', Some ''A2'', Some ''A3''}) =
      ([], {Some ''A1'', Some ''A2'', Some ''A3''})"
    by blast+
  from spec one have "filterNew_spec {Some ''A1'', Some ''A2''} example_batch =
      [example_batch ! 1]"
    by (simp only: prod.inject)
  with one none show ?thesis
    by (simp only: second)
qed

subsection \<open>Claim C7\<close>

text \<open>
  Claim C7. Feeding a batch a second time, right after the first, finds no new record:
  \<open>new_count\<close> is 0 and the scraper, with its result set and its cache, is unchanged.
\<close>

theorem repoll_adds_nothing:
  "add_new_products batch (snd (add_new_products batch s)) =
     (0, snd (add_new_products batch s))"
proof -
  obtain new cache where first: "filter_new batch ([], existing_ids_cache s) = (new, cache)"
    by (cases "filter_new batch ([], existing_ids_cache s)")
  have "filter_new batch ([], cache) = ([], cache)"
    using filter_new_twice [of batch "[]" "existing_ids_cache s"] first by simp
  then show ?thesis
    by (simp add: add_new_products_def first)
qed

subsection \<open>Claim C8\<close>

text \<open>
  Claim C8, amended. A pass of the loop whose scroll burst raises ends there, with the
  attempt counted and nothing else changed: it has no batch and writes nothing, whatever
  its number. In a pass whose scroll burst does not raise, the writes of the pass are
  those of one call of \<open>save_continuous\<close> on the result set if the attempt number is a
  multiple of 5 or the batch has no new record, and none otherwise. When
  \<open>temp_products.json\<close> can be written, storage therefore changes if and only if that
  condition holds; when the numbered backup can be written too, the checkpoint is the
  pair of files with status \<open>in_progress\<close> and the result set.
\<close>

theorem checkpoint_iff:
  assumes "prods = all_products s @ fst (new_of e s)"
  shows "(fault e Burst (Suc (total_attempts s)) \<longrightarrow>
            attempt e s = Raise (s\<lparr>total_attempts := Suc (total_attempts s)\<rparr>)) \<and>
         (\<not> fault e Burst (Suc (total_attempts s)) \<longrightarrow>
            storage (step_state (attempt e s)) =
              (if Suc (total_attempts s) mod 5 = 0 \<or> fst (new_of e s) = []
               then storage (save_continuous e prods s) else storage s) \<and>
            (writable e temp_file \<longrightarrow>
               (storage (step_state (attempt e s)) \<noteq> storage s) =
                 (Suc (total_attempts s) mod 5 = 0 \<or> fst (new_of e s) = [])) \<and>
            (writable e temp_file \<and> writable e (backup_name (length prods)) \<longrightarrow>
               storage (save_continuous e prods s) =
                 storage s @
                   [(temp_file,
                     Snapshot \<lparr> timestamp = clock e (clock_reads s),
                       products_count = length prods, status = in_progress, products = prods \<rparr>),
                    (backup_name (length prods),
                     Snapshot \<lparr> timestamp = clock e (clock_reads s),
                       products_count = length prods, status = in_progress,
                       products = prods \<rparr>)]))"
proof (intro conjI impI)
  assume "fault e Burst (Suc (total_attempts s))"
  then show "attempt e s = Raise (s\<lparr>total_attempts := Suc (total_attempts s)\<rparr>)"
    by (rule attempt_Raise_Burst)
next
  assume burst: "\<not> fault e Burst (Suc (total_attempts s))"
  obtain new cache where found: "new_of e s = (new, cache)"
    by (cases "new_of e s")
  let ?mid = "s\<lparr>total_attempts := Suc (total_attempts s), page_reads := Suc (page_reads s),
                 existing_ids_cache := cache, all_products := all_products s @ new\<rparr>"
  have same: "storage (save_continuous e prods ?mid) = storage (save_continuous e prods s)"
    by (rule save_continuous_storage_cong) simp_all
  show first: "storage (step_state (attempt e s)) =
           (if Suc (total_attempts s) mod 5 = 0 \<or> fst (new_of e s) = []
            then storage (save_continuous e prods s) else storage s)"
    using assms same burst
    by (auto simp: attempt_def add_new_products_def read_page_def Let_def found)
  assume "writable e temp_file"
  then show "(storage (step_state (attempt e s)) \<noteq> storage s) =
                 (Suc (total_attempts s) mod 5 = 0 \<or> fst (new_of e s) = [])"
    using first save_continuous_writes [of e prods s] by auto
next
  assume "writable e temp_file \<and> writable e (backup_name (length prods))"
  then show "storage (save_continuous e prods s) =
                 storage s @
                   [(temp_file,
                     Snapshot \<lparr> timestamp = clock e (clock_reads s),
                       products_count = length prods, status = in_progress, products = prods \<rparr>),
                    (backup_name (length prods),
                     Snapshot \<lparr> timestamp = clock e (clock_reads s),
                       products_count = length prods, status = in_progress,
                       products = prods \<rparr>)]"
    using save_continuous_storage [of e prods s] by simp
qed

text \<open>
  The theorem at the first pass where the table shows the row A1: with A1 seen before,
  the batch has no new record and the checkpoint of the one record is written; from the
  initial state A1 is new, the attempt number is 1, and nothing is written. And at a
  fifth pass whose scroll burst raises: the pass ends with the attempt counted.
\<close>

theorem checkpoint_iff_witness:
  "storage (step_state (attempt stalled seen_A1)) =
     [(temp_file, Snapshot \<lparr> timestamp = 0, products_count = 1, status = in_progress,
                              products = all_products seen_A1 \<rparr>),
      (backup_name 1, Snapshot \<lparr> timestamp = 0, products_count = 1, status = in_progress,
                              products = all_products seen_A1 \<rparr>)] \<and>
   storage (step_state (attempt stalled init)) = [] \<and>
   attempt burst_raises (init\<lparr>total_attempts := 4\<rparr>) = Raise (init\<lparr>total_attempts := 5\<rparr>)"
proof -
  have seen: "fst (new_of stalled seen_A1) = []"
    by code_simp
  have unseen: "fst (new_of stalled init) \<noteq> []"
    by code_simp
  have one: "length (all_products seen_A1) = 1"
    by code_simp
  have env: "\<not> fault stalled Burst k" "writable stalled name" "clock stalled k = 0" for k name
    by (simp_all add: stalled_def quiet_def)
  have start: "storage seen_A1 = []" "total_attempts seen_A1 = 0" "storage init = []"
    "total_attempts init = 0"
    by (simp_all add: seen_A1_def init_def)
  have raises: "fault burst_raises Burst (Suc (total_attempts (init\<lparr>total_attempts := 4\<rparr>)))"
    by (simp add: burst_raises_def empty_table_def quiet_def)
  from checkpoint_iff [of "all_products seen_A1 @ fst (new_of stalled seen_A1)" seen_A1 stalled,
      OF refl]
  have "storage (step_state (attempt stalled seen_A1)) =
     [(temp_file, Snapshot \<lparr> timestamp = 0, products_count = 1, status = in_progress,
                              products = all_products seen_A1 \<rparr>),
      (backup_name 1, Snapshot \<lparr> timestamp = 0, products_count = 1, status = in_progress,
                              products = all_products seen_A1 \<rparr>)]"
    by (simp add: seen one env start)
  moreover
  from checkpoint_iff [of "all_products init @ fst (new_of stalled init)" init stalled, OF refl]
  have "storage (step_state (attempt stalled init)) = []"
    by (simp add: unseen start env)
  moreover
  from checkpoint_iff [of _ "init\<lparr>total_attempts := 4\<rparr>" burst_raises, OF refl] raises
  have "attempt burst_raises (init\<lparr>total_attempts := 4\<rparr>) = Raise (init\<lparr>total_attempts := 5\<rparr>)"
    by simp
  ultimately show ?thesis
    by simp
qed

text \<open>
  Claim C8 as stated fails: with a table that never shows a row, and the scroll burst of
  attempt 5 raising, the extraction ends in its fifth pass with five checkpoints in
  storage, those of the first extraction and of the attempts 1 to 4. The fifth pass, whose
  number is a multiple of 5, writes none, and neither does the \<open>except\<close> clause, the result
  set being empty.
\<close>

theorem no_checkpoint_when_burst_raises:
  "total_attempts (snd (extract_product_data burst_raises init)) = 5 \<and>
   map fst (storage (snd (extract_product_data burst_raises init))) =
     concat (replicate 5 [temp_file, backup_name 0])"
  by code_simp


subsection \<open>Claim C9\<close>

text \<open>
  Claim C9, amended. A checkpoint event whose files can be written ends with the write
  of \<open>progress_backup_<count>.json\<close>, the count being the number of products saved; two
  checkpoint events write the same backup file exactly when their counts agree, so an
  event overwrites the backup of an earlier one with the same count.
\<close>

theorem backup_named_by_count:
  assumes "writable e temp_file"
    and "writable e (backup_name (length prods))"
    and "writable e (backup_name (length prods'))"
  shows "last (storage (save_continuous e prods s)) =
           (backup_name (length prods),
            Snapshot \<lparr> timestamp = clock e (clock_reads s), products_count = length prods,
                       status = in_progress, products = prods \<rparr>) \<and>
         (fst (last (storage (save_continuous e prods s))) =
          fst (last (storage (save_continuous e prods' s'))))
           = (length prods = length prods')"
  using assms by (simp add: save_continuous_storage backup_name_inj)

text \<open>
  The theorem at a checkpoint of one record: the backup is \<open>progress_backup_1.json\<close>, not
  the backup of a checkpoint of no record.
\<close>

theorem backup_named_by_count_witness:
  "last (storage (save_continuous quiet [record_of (Some ''A1'')] init)) =
     (backup_name 1,
      Snapshot \<lparr> timestamp = clock quiet (clock_reads init), products_count = 1,
                 status = in_progress, products = [record_of (Some ''A1'')] \<rparr>) \<and>
   fst (last (storage (save_continuous quiet [record_of (Some ''A1'')] init))) \<noteq>
   fst (last (storage (save_continuous quiet [] init)))"
proof -
  have files: "writable quiet temp_file"
    "writable quiet (backup_name (length [record_of (Some ''A1'')]))"
    "writable quiet (backup_name (length ([] :: product list)))"
    by (simp_all add: quiet_def)
  from backup_named_by_count [OF files, of init init]
  show ?thesis
    by auto
qed

text \<open>
  Claim C9 as stated fails: in the run where the table shows the one row A1 at every
  poll, the second and the fourth write both go to \<open>progress_backup_1.json\<close>.
\<close>

theorem backup_overwritten:
  "fst (storage (snd (run stalled)) ! 1) = ''progress_backup_1.json'' \<and>
   fst (storage (snd (run stalled)) ! 3) = ''progress_backup_1.json''"
  by code_simp

subsection \<open>Claim C10\<close>

text \<open>
  Claim C10. On a fresh start with a container, the result set begins with every record
  of the first extraction, as extracted; the records after them, added by the loop, have
  non-empty ids that differ from one another and from the ids of the first extraction.
  So a record of the result set with an empty id is one of the first extraction, and it
  has a non-empty sku.
\<close>

theorem initial_extraction_unfiltered:
  assumes "\<not> fst (load_previous_progress e init)"
    and "find_scrollable_table_container e \<noteq> None"
    and "initial = extract_current_page_data (pages e 0)"
    and "prods = fst (extract_product_data e init)"
    and "added = drop (length initial) prods"
  shows "prods = initial @ added \<and>
         (\<forall>p \<in> set added. truthy (id' p) \<and> id' p \<notin> id' ` set initial) \<and>
         distinct (map id' added) \<and>
         (\<forall>p \<in> set prods. \<not> truthy (id' p) \<longrightarrow> p \<in> set initial \<and> truthy (sku p))"
proof -
  let ?s = "start_state e init"
  have empty: "all_products ?s = []"
    using assms(1) by (simp add: start_state_all_products)
  have entry: "all_products (loop_entry e ?s) = initial"
    and cache: "existing_ids_cache (loop_entry e ?s) = {i \<in> id' ` set initial. truthy i}"
    using loop_entry_fresh [OF empty, of e] by (simp_all add: init_def assms(3))
  have returned: "prods = all_products (state_of (extraction_loop e (loop_entry e ?s)))"
    using assms(2) by (auto simp: assms(4) extract_product_data_phases)
  from extraction_loop_grows [of "loop_entry e ?s" e]
  obtain new where new: "prods = initial @ new" "distinct (map id' new)"
    "\<forall>p \<in> set new. truthy (id' p) \<and> id' p \<notin> existing_ids_cache (loop_entry e ?s)"
    unfolding grows_from_def returned entry by blast
  have added: "added = new"
    by (simp add: assms(5) new(1))
  have unseen: "\<forall>p \<in> set new. truthy (id' p) \<and> id' p \<notin> id' ` set initial"
    using new(3) by (auto simp: cache)
  have no_id: "\<forall>p \<in> set prods. \<not> truthy (id' p) \<longrightarrow> p \<in> set initial \<and> truthy (sku p)"
    using new(3) extract_current_page_data_valid [of _ "pages e 0"]
    by (auto simp: new(1) assms(3))
  show ?thesis
    using new(1,2) unseen no_id by (simp add: added)
qed

text \<open>
  The theorem where the first page shows a row without id and the row A1 twice, and the
  later pages the row A2 in place of the second A1: the three records of the first page
  are kept as they are, and the loop adds A2 alone.
\<close>

theorem initial_extraction_unfiltered_witness:
  "fst (extract_product_data growing init) =
     [record_of None, record_of (Some ''A1''), record_of (Some ''A1'')] @
     [record_of (Some ''A2'')] \<and>
   distinct (map id' [record_of (Some ''A2'')])"
proof -
  have fresh: "\<not> fst (load_previous_progress growing init)"
    by (simp add: load_previous_progress_def growing_def quiet_def)
  have found: "find_scrollable_table_container growing \<noteq> None"
    by code_simp
  have initial: "extract_current_page_data (pages growing 0) =
      [record_of None, record_of (Some ''A1''), record_of (Some ''A1'')]"
    by code_simp
  have prods: "fst (extract_product_data growing init) =
      [record_of None, record_of (Some ''A1''), record_of (Some ''A1''), record_of (Some ''A2'')]"
    by code_simp
  from initial_extraction_unfiltered [OF fresh found refl refl refl]
  show ?thesis
    by (simp add: initial prods)
qed

end
